theory Spec2Isabelle
  imports Main "HOL-Library.AList" "HOL-Library.Char_ord" "HOL-Library.List_Lexorder"
begin

section \<open>Strings\<close>

text \<open>
  A Python \<open>str\<close> is modelled as a \<open>string\<close>: the list of the bytes of its UTF-8
  encoding. Every delimiter the program looks for (\<open>/\<close>, \<open>.\<close>, \<open>:\<close>, \<open>?\<close>, \<open>#\<close>,
  the suffix \<open>.md\<close>) is ASCII, and an ASCII byte never occurs inside the encoding of
  another code point, so splitting, stripping and slicing at these delimiters act on the
  bytes as they act on the code points.
\<close>

datatype error = ValueError | OSError | IndexError

text \<open>\<open>s.startswith(p)\<close> and \<open>s.endswith(p)\<close>.\<close>

definition startswith :: "string \<Rightarrow> string \<Rightarrow> bool" where
  "startswith s p = (take (length p) s = p)"

definition endswith :: "string \<Rightarrow> string \<Rightarrow> bool" where
  "endswith s p = (length p \<le> length s \<and> drop (length s - length p) s = p)"

text \<open>\<open>s.rstrip(c)\<close> for a single character \<open>c\<close>: every trailing \<open>c\<close> is removed.\<close>

definition rstrip :: "char \<Rightarrow> string \<Rightarrow> string" where
  "rstrip c s = rev (dropWhile (\<lambda>x. x = c) (rev s))"

text \<open>\<open>s.split(c)\<close>: the segments between the occurrences of \<open>c\<close>, never an empty list.\<close>

fun split_on :: "char \<Rightarrow> string \<Rightarrow> string list" where
  "split_on c [] = [[]]"
| "split_on c (x # xs) =
     (if x = c then [] # split_on c xs
      else (case split_on c xs of
              [] \<Rightarrow> [[x]]
            | seg # segs \<Rightarrow> (x # seg) # segs))"

text \<open>\<open>sep.join(parts)\<close>.\<close>

fun sep_join :: "string \<Rightarrow> string list \<Rightarrow> string" where
  "sep_join sep [] = []"
| "sep_join sep [p] = p"
| "sep_join sep (p # q # ps) = p @ sep @ sep_join sep (q # ps)"

text \<open>\<open>s.split(c, 1)\<close> when \<open>c\<close> occurs in \<open>s\<close>: the text before and after its first
  occurrence.\<close>

definition split_first :: "char \<Rightarrow> string \<Rightarrow> string \<times> string" where
  "split_first c s = (takeWhile (\<lambda>x. x \<noteq> c) s, drop 1 (dropWhile (\<lambda>x. x \<noteq> c) s))"

section \<open>The URL functions of the standard library\<close>

text \<open>
  \<open>handle_element\<close> calls \<open>urllib.parse.urlsplit\<close> and \<open>urllib.parse.urlunsplit\<close>. They
  are modelled after \<open>Lib/urllib/parse.py\<close> of CPython 3.11, for \<open>str\<close> arguments and the
  default \<open>scheme=''\<close>, \<open>allow_fragments=True\<close>. Two checks of \<open>urlsplit\<close> on a
  non-empty authority need tables that lie outside this development (the \<open>ipaddress\<close>
  module and a regular expression in \<open>_check_bracketed_host\<close>, Unicode NFKC normalisation
  in \<open>_checknetloc\<close>); they are parameters, and every theorem below holds whatever they
  answer.
\<close>

record url_checks =
  check_bracketed_host :: "string \<Rightarrow> bool"
    \<comment> \<open>\<open>_check_bracketed_host(hostname)\<close> returns without raising\<close>
  nfkc_netloc_ok :: "string \<Rightarrow> bool"
    \<comment> \<open>the NFKC test of \<open>_checknetloc\<close> on a non-ASCII authority does not raise\<close>

record split_result =
  scheme :: string
  netloc :: string
  path :: string
  query :: string
  fragment :: string

definition uses_netloc :: "string list" where
  "uses_netloc = ['''', ''ftp'', ''http'', ''gopher'', ''nntp'', ''telnet'',
                  ''imap'', ''wais'', ''file'', ''mms'', ''https'', ''shttp'',
                  ''snews'', ''prospero'', ''rtsp'', ''rtsps'', ''rtspu'', ''rsync'',
                  ''svn'', ''svn+ssh'', ''sftp'', ''nfs'', ''git'', ''git+ssh'',
                  ''ws'', ''wss'']"

definition ascii_letters :: string where
  "ascii_letters = ''abcdefghijklmnopqrstuvwxyzABCDEFGHIJKLMNOPQRSTUVWXYZ''"

definition scheme_chars :: string where
  "scheme_chars = ascii_letters @ ''0123456789'' @ ''+-.''"

text \<open>\<open>_WHATWG_C0_CONTROL_OR_SPACE\<close>: the code points 0 to 32.\<close>

definition c0_control_or_space :: "char \<Rightarrow> bool" where
  "c0_control_or_space c = ((of_char c :: nat) \<le> 32)"

text \<open>\<open>_UNSAFE_URL_BYTES_TO_REMOVE\<close>: tab, carriage return, line feed.\<close>

definition unsafe_url_bytes :: "char list" where
  "unsafe_url_bytes = [CHR 0x09, CHR 0x0D, CHR 0x0A]"

text \<open>\<open>str.lower\<close> on the characters of a scheme, which are ASCII.\<close>

definition ascii_lower :: "char \<Rightarrow> char" where
  "ascii_lower c =
     (if (65::nat) \<le> of_char c \<and> (of_char c :: nat) \<le> 90
      then char_of (of_char c + (32::nat)) else c)"

text \<open>\<open>_splitnetloc(url, 2)\<close>: the authority runs from index 2 to the first of
  \<open>/\<close>, \<open>?\<close>, \<open>#\<close> (or to the end).\<close>

definition splitnetloc :: "string \<Rightarrow> string \<times> string" where
  "splitnetloc url =
     (let rest = drop 2 url;
          is_delim = (\<lambda>c. c = CHR ''/'' \<or> c = CHR ''?'' \<or> c = CHR ''#'')
      in (takeWhile (\<lambda>c. \<not> is_delim c) rest, dropWhile (\<lambda>c. \<not> is_delim c) rest))"

text \<open>\<open>_checknetloc(netloc)\<close>: an empty or ASCII authority always passes.\<close>

definition checknetloc :: "url_checks \<Rightarrow> string \<Rightarrow> bool" where
  "checknetloc chk nl =
     (nl = [] \<or> (\<forall>c \<in> set nl. (of_char c :: nat) < 128) \<or> nfkc_netloc_ok chk nl)"

text \<open>The tail of \<open>urlsplit\<close>: fragment, then query, then \<open>_checknetloc\<close>.\<close>

definition split_tail :: "url_checks \<Rightarrow> string \<Rightarrow> string \<Rightarrow> string \<Rightarrow> error + split_result" where
  "split_tail chk sch nl url =
     (let (url1, frag) = (if CHR ''#'' \<in> set url then split_first (CHR ''#'') url else (url, []));
          (url2, qry) = (if CHR ''?'' \<in> set url1 then split_first (CHR ''?'') url1 else (url1, []))
      in if checknetloc chk nl
         then Inr \<lparr>scheme = sch, netloc = nl, path = url2, query = qry, fragment = frag\<rparr>
         else Inl ValueError)"

text \<open>Lines 477 to 482 of \<open>urlsplit\<close>: leading control characters and spaces are
  stripped, then every tab, carriage return and line feed is removed.\<close>

definition url_clean :: "string \<Rightarrow> string" where
  "url_clean href =
     filter (\<lambda>c. c \<notin> set unsafe_url_bytes) (dropWhile c0_control_or_space href)"

text \<open>Lines 486 to 492: a scheme is split off when the first colon is not at index 0,
  the first character is an ASCII letter and every character before the colon is in
  \<open>scheme_chars\<close>.\<close>

definition has_scheme :: "string \<Rightarrow> bool" where
  "has_scheme url =
     (CHR '':'' \<in> set url \<and> takeWhile (\<lambda>c. c \<noteq> CHR '':'') url \<noteq> []
      \<and> hd url \<in> set ascii_letters
      \<and> (\<forall>c \<in> set (takeWhile (\<lambda>c. c \<noteq> CHR '':'') url). c \<in> set scheme_chars))"

definition split_scheme :: "string \<Rightarrow> string \<times> string" where
  "split_scheme url =
     (let pre = takeWhile (\<lambda>c. c \<noteq> CHR '':'') url
      in if has_scheme url then (map ascii_lower pre, drop (length pre + 1) url)
         else ([], url))"

definition urlsplit :: "url_checks \<Rightarrow> string \<Rightarrow> error + split_result" where
  "urlsplit chk href =
     (let (sch, url) = split_scheme (url_clean href)
      in if take 2 url = ''//''
         then (let (nl, rest) = splitnetloc url;
                   lb = CHR ''['' \<in> set nl; rb = CHR '']'' \<in> set nl
               in if (lb \<and> \<not> rb) \<or> (rb \<and> \<not> lb) then Inl ValueError
                  else if lb \<and> rb \<and> \<not> check_bracketed_host chk
                            (fst (split_first (CHR '']'') (snd (split_first (CHR ''['') nl))))
                  then Inl ValueError
                  else split_tail chk sch nl rest)
         else split_tail chk sch [] url)"

definition urlunsplit :: "string \<times> string \<times> string \<times> string \<times> string \<Rightarrow> string" where
  "urlunsplit comps =
     (case comps of (sch, nl, url, qry, frag) \<Rightarrow>
        (let url = (if nl \<noteq> [] \<or> (sch \<noteq> [] \<and> sch \<in> set uses_netloc) \<or> take 2 url = ''//''
                    then ''//'' @ nl @ (if url \<noteq> [] \<and> take 1 url \<noteq> ''/'' then ''/'' @ url else url)
                    else url);
             url = (if sch \<noteq> [] then sch @ '':'' @ url else url);
             url = (if qry \<noteq> [] then url @ ''?'' @ qry else url);
             url = (if frag \<noteq> [] then url @ ''#'' @ frag else url)
         in url))"

section \<open>The link rewriter\<close>

text \<open>
  An \<open>xml.etree.ElementTree.Element\<close>: a tag, the attribute dictionary in insertion
  order, the text before the first child, the text after the element, and the children.
\<close>

datatype element =
  Element (tag: string) (attrib: "(string \<times> string) list")
          (etext: "string option") (etail: "string option") (children: "element list")

text \<open>Lines 87 to 94 of \<open>handle_element\<close>: trailing slashes are stripped, then one
  \<open>.md\<close> suffix is removed.\<close>

definition strip_md_path :: "string \<Rightarrow> string" where
  "strip_md_path p =
     (let p1 = rstrip (CHR ''/'') p
      in if endswith p1 ''.md'' then take (length p1 - 3) p1 else p1)"

text \<open>Line 96: the new path of an internal link.\<close>

definition rewrite_path :: "string \<Rightarrow> string" where
  "rewrite_path p = strip_md_path p @ ''/''"

text \<open>Lines 99 to 102: the href that is written back.\<close>

definition rewrite_parts :: "split_result \<Rightarrow> string" where
  "rewrite_parts parts =
     urlunsplit (scheme parts, netloc parts, rewrite_path (path parts),
                 query parts, fragment parts)"

text \<open>
  \<open>LinkRewritingTreeProcessor.handle_element\<close>. The source mutates the tree in place;
  the model returns the new tree. A \<open>ValueError\<close> raised by \<open>urlsplit\<close> is not caught
  and ends the walk.
\<close>

fun handle_element :: "url_checks \<Rightarrow> element \<Rightarrow> error + element"
  and handle_children :: "url_checks \<Rightarrow> element list \<Rightarrow> error + element list" where
  "handle_element chk (Element t a tx ta cs) =
     (case handle_children chk cs of
        Inl e \<Rightarrow> Inl e
      | Inr cs' \<Rightarrow>
          (if t = ''a'' then
             (case map_of a ''href'' of
                None \<Rightarrow> Inr (Element t a tx ta cs')
              | Some href \<Rightarrow>
                  (case urlsplit chk href of
                     Inl e \<Rightarrow> Inl e
                   | Inr parts \<Rightarrow>
                       (if netloc parts = []
                        then Inr (Element t (AList.update ''href'' (rewrite_parts parts) a) tx ta cs')
                        else Inr (Element t a tx ta cs'))))
           else Inr (Element t a tx ta cs')))"
| "handle_children chk [] = Inr []"
| "handle_children chk (c # cs) =
     (case handle_element chk c of
        Inl e \<Rightarrow> Inl e
      | Inr c' \<Rightarrow>
          (case handle_children chk cs of
             Inl e \<Rightarrow> Inl e
           | Inr cs' \<Rightarrow> Inr (c' # cs')))"

text \<open>What \<open>handle_element\<close> does to one href: the rewrite as a function on hrefs.\<close>

definition rewrite_href :: "url_checks \<Rightarrow> string \<Rightarrow> error + string" where
  "rewrite_href chk href =
     (case urlsplit chk href of
        Inl e \<Rightarrow> Inl e
      | Inr parts \<Rightarrow> if netloc parts = [] then Inr (rewrite_parts parts) else Inr href)"

section \<open>The path functions of the standard library\<close>

text \<open>
  \<open>load_doc_page\<close> calls \<open>os.path.join\<close>, \<open>normpath\<close>, \<open>commonpath\<close> and \<open>basename\<close>.
  They are modelled after \<open>Lib/posixpath.py\<close> of CPython 3.11 for \<open>str\<close> arguments.
\<close>

text \<open>\<open>os.path.join(a, b)\<close> with one component \<open>b\<close>.\<close>

definition path_join :: "string \<Rightarrow> string \<Rightarrow> string" where
  "path_join a b =
     (if startswith b ''/'' then b
      else if a = [] \<or> endswith a ''/'' then a @ b
      else a @ ''/'' @ b)"

text \<open>\<open>os.path.basename(p)\<close>: what follows the last slash.\<close>

definition basename :: "string \<Rightarrow> string" where
  "basename p = rev (takeWhile (\<lambda>c. c \<noteq> CHR ''/'') (rev p))"

text \<open>The loop of \<open>normpath\<close> over the components, \<open>new_comps\<close> as the accumulator.\<close>

fun normpath_comps :: "nat \<Rightarrow> string list \<Rightarrow> string list \<Rightarrow> string list" where
  "normpath_comps initial_slashes [] new_comps = new_comps"
| "normpath_comps initial_slashes (part # comps) new_comps =
     (if part = [] \<or> part = ''.'' then normpath_comps initial_slashes comps new_comps
      else if part \<noteq> ''..'' \<or> (initial_slashes = 0 \<and> new_comps = [])
              \<or> (new_comps \<noteq> [] \<and> last new_comps = ''..'')
      then normpath_comps initial_slashes comps (new_comps @ [part])
      else if new_comps \<noteq> [] then normpath_comps initial_slashes comps (butlast new_comps)
      else normpath_comps initial_slashes comps new_comps)"

definition normpath :: "string \<Rightarrow> string" where
  "normpath p =
     (if p = [] then ''.''
      else
        (let initial_slashes =
               (if startswith p ''/''
                then (if startswith p ''//'' \<and> \<not> startswith p ''///'' then 2 else 1)
                else (0::nat));
             comps = normpath_comps initial_slashes (split_on (CHR ''/'') p) [];
             q = sep_join ''/'' comps;
             q = (if initial_slashes \<noteq> 0 then replicate initial_slashes (CHR ''/'') @ q else q)
         in if q = [] then ''.'' else q))"

text \<open>
  The scan of \<open>commonpath\<close> for the first index where \<open>s1\<close> and \<open>s2\<close> differ; reading
  \<open>s2[i]\<close> beyond the end of \<open>s2\<close> raises \<open>IndexError\<close>.
\<close>

fun common_scan :: "string list \<Rightarrow> string list \<Rightarrow> string list option" where
  "common_scan [] s2 = Some []"
| "common_scan (c # s1) [] = None"
| "common_scan (c # s1) (d # s2) =
     (if c \<noteq> d then Some [] else map_option (\<lambda>r. c # r) (common_scan s1 s2))"

text \<open>Lines 542 and 549 of \<open>commonpath\<close>: the components of a path that are neither
  empty nor \<open>.\<close>.\<close>

definition path_components :: "string \<Rightarrow> string list" where
  "path_components p = filter (\<lambda>c. c \<noteq> [] \<and> c \<noteq> ''.'') (split_on (CHR ''/'') p)"

definition commonpath :: "string list \<Rightarrow> error + string" where
  "commonpath paths =
     (if paths = [] then Inl ValueError
      else if \<exists>p \<in> set paths. \<exists>q \<in> set paths. (take 1 p = ''/'') \<noteq> (take 1 q = ''/'')
      then Inl ValueError
      else
        (let isabs = (take 1 (hd paths) = ''/'');
             split_paths = map path_components paths;
             s1 = Min (set split_paths);
             s2 = Max (set split_paths)
         in case common_scan s1 s2 of
              None \<Rightarrow> Inl IndexError
            | Some common \<Rightarrow> Inr ((if isabs then ''/'' else []) @ sep_join ''/'' common)))"

section \<open>Resolving and rendering a page\<close>

text \<open>
  What \<open>load_doc_page\<close> takes from its environment: the file system (\<open>os.path.exists\<close>,
  \<open>os.path.realpath\<close>, \<open>open\<close> and \<open>read\<close>), the Markdown converter with the \<open>Meta\<close> it
  leaves behind, and \<open>cleaner.clean\<close>. A read that fails raises; whatever the exception,
  the model writes it \<open>OSError\<close>. The converter may raise too: the link rewriter lets the
  \<open>ValueError\<close> of \<open>urlsplit\<close> through. The three file-system functions are independent
  of one another, as the calls are made at different moments.
\<close>

type_synonym metadata = "string \<rightharpoonup> string list"

record env =
  path_exists :: "string \<Rightarrow> bool"
  realpath :: "string \<Rightarrow> string"
  read_file :: "string \<Rightarrow> string option"
  convert :: "string \<Rightarrow> error + (string \<times> metadata)"
  clean :: "string \<Rightarrow> string"

type_synonym page_result = "error + (metadata \<times> string option)"

definition not_found :: "metadata \<times> string option" where
  "not_found = (Map.empty, None)"

text \<open>Lines 155 to 177: read the file, render it, sanitise the HTML.\<close>

definition render_file :: "env \<Rightarrow> string \<Rightarrow> page_result" where
  "render_file e p =
     (case read_file e p of
        None \<Rightarrow> Inl OSError
      | Some text_md \<Rightarrow>
          (case convert e text_md of
             Inl err \<Rightarrow> Inl err
           | Inr (raw_html, meta) \<Rightarrow> Inr (meta, Some (clean e raw_html))))"

text \<open>The loop of lines 138 to 179 over \<open>potential_paths\<close>.\<close>

fun try_paths :: "env \<Rightarrow> string \<Rightarrow> string list \<Rightarrow> page_result" where
  "try_paths e markdown_dir_clean [] = Inr not_found"
| "try_paths e markdown_dir_clean (cand # rest) =
     (if \<not> path_exists e cand then try_paths e markdown_dir_clean rest
      else
        (let p = realpath e cand; fname = basename p
         in if fname = ''README.md'' then try_paths e markdown_dir_clean rest
            else
              (case commonpath [p, markdown_dir_clean] of
                 Inl err \<Rightarrow> Inl err
               | Inr cp \<Rightarrow>
                   (if cp \<noteq> markdown_dir_clean then try_paths e markdown_dir_clean rest
                    else render_file e p))))"

text \<open>Lines 116 to 119 and 133 to 136.\<close>

definition base_path :: "string \<Rightarrow> string \<Rightarrow> string" where
  "base_path MARKDOWN_DIR page =
     normpath (path_join (normpath MARKDOWN_DIR) (rstrip (CHR ''/'') page))"

definition potential_paths :: "string \<Rightarrow> string \<Rightarrow> string list" where
  "potential_paths MARKDOWN_DIR page =
     [base_path MARKDOWN_DIR page @ ''.md'',
      path_join (base_path MARKDOWN_DIR page) ''index.md'']"

definition load_doc_page :: "env \<Rightarrow> string \<Rightarrow> string \<Rightarrow> page_result" where
  "load_doc_page e MARKDOWN_DIR page0 =
     (if ''..'' \<in> set (split_on (CHR ''/'') page0) then Inr not_found
      else
        (let page = rstrip (CHR ''/'') page0;
             markdown_dir_clean = normpath MARKDOWN_DIR
         in case commonpath [base_path MARKDOWN_DIR page0, markdown_dir_clean] of
              Inl err \<Rightarrow> Inl err
            | Inr cp \<Rightarrow>
                (if cp \<noteq> markdown_dir_clean then Inr not_found
                 else if \<exists>part \<in> set (split_on (CHR ''/'') page). startswith part ''.''
                 then Inr not_found
                 else try_paths e markdown_dir_clean (potential_paths MARKDOWN_DIR page0))))"

section \<open>Values used in the examples\<close>

text \<open>Library checks that accept every authority.\<close>

definition accept_all :: url_checks where
  "accept_all = \<lparr>check_bracketed_host = (\<lambda>h. True), nfkc_netloc_ok = (\<lambda>n. True)\<rparr>"


section \<open>The checks of \<open>load_doc_page\<close> as predicates\<close>

text \<open>The checks of lines 113 to 130 all pass.\<close>

definition entry_checks_pass :: "string \<Rightarrow> string \<Rightarrow> bool" where
  "entry_checks_pass MARKDOWN_DIR page =
     (''..'' \<notin> set (split_on (CHR ''/'') page)
      \<and> commonpath [base_path MARKDOWN_DIR page, normpath MARKDOWN_DIR] = Inr (normpath MARKDOWN_DIR)
      \<and> (\<forall>part \<in> set (split_on (CHR ''/'') (rstrip (CHR ''/'') page)). \<not> startswith part ''.''))"

text \<open>The check of line 123 returns: the joined path is lexically outside the root.\<close>

definition lexical_escape :: "string \<Rightarrow> string \<Rightarrow> bool" where
  "lexical_escape MARKDOWN_DIR page =
     (case commonpath [base_path MARKDOWN_DIR page, normpath MARKDOWN_DIR] of
        Inl err \<Rightarrow> False
      | Inr cp \<Rightarrow> cp \<noteq> normpath MARKDOWN_DIR)"

text \<open>A segment of the logical path starts with a dot.\<close>

definition hidden_segment :: "string \<Rightarrow> bool" where
  "hidden_segment page = (\<exists>part \<in> set (split_on (CHR ''/'') page). startswith part ''.'')"

text \<open>One pass of the loop of lines 138 to 153 ends in \<open>continue\<close>.\<close>

definition candidate_skipped :: "env \<Rightarrow> string \<Rightarrow> string \<Rightarrow> bool" where
  "candidate_skipped e markdown_dir_clean cand =
     (\<not> path_exists e cand
      \<or> basename (realpath e cand) = ''README.md''
      \<or> (case commonpath [realpath e cand, markdown_dir_clean] of
            Inl err \<Rightarrow> False
          | Inr cp \<Rightarrow> cp \<noteq> markdown_dir_clean))"

text \<open>One pass of the loop reaches \<open>open\<close> on line 155.\<close>

definition candidate_accepted :: "env \<Rightarrow> string \<Rightarrow> string \<Rightarrow> bool" where
  "candidate_accepted e markdown_dir_clean cand =
     (path_exists e cand
      \<and> basename (realpath e cand) \<noteq> ''README.md''
      \<and> commonpath [realpath e cand, markdown_dir_clean] = Inr markdown_dir_clean)"

text \<open>
  A file system for the examples: the files that exist, the symbolic links with their
  targets, and the files that cannot be read. Every readable file holds \<open>Hello\<close>; the
  converter and the sanitiser of the examples return their input.
\<close>

definition example_env :: "string list \<Rightarrow> (string \<times> string) list \<Rightarrow> string list \<Rightarrow> env" where
  "example_env files links unreadable =
     \<lparr>path_exists = (\<lambda>p. p \<in> set files),
      realpath = (\<lambda>p. case map_of links p of Some target \<Rightarrow> target | None \<Rightarrow> p),
      read_file = (\<lambda>p. if p \<in> set unreadable then None else Some ''Hello''),
      convert = (\<lambda>text_md. Inr (text_md, Map.empty)),
      clean = (\<lambda>h. h)\<rparr>"

text \<open>A first candidate that is a symbolic link to a README, beside an index file.\<close>

definition readme_link_env :: env where
  "readme_link_env =
     example_env [''/srv/docs/guide.md'', ''/srv/docs/guide/index.md'']
                 [(''/srv/docs/guide.md'', ''/srv/docs/README.md'')] []"



section \<open>Stripping and suffixes\<close>

lemma rstrip_decomp: "p = rstrip c p @ replicate (length (takeWhile (\<lambda>x. x = c) (rev p))) c"
proof -
  have "rev p = takeWhile (\<lambda>x. x = c) (rev p) @ dropWhile (\<lambda>x. x = c) (rev p)" by simp
  moreover have "takeWhile (\<lambda>x. x = c) (rev p) = replicate (length (takeWhile (\<lambda>x. x = c) (rev p))) c"
    by (rule replicate_eqI) (auto dest: set_takeWhileD)
  ultimately have "rev p = replicate (length (takeWhile (\<lambda>x. x = c) (rev p))) c @ dropWhile (\<lambda>x. x = c) (rev p)"
    by simp
  then have "rev (rev p) = rev (replicate (length (takeWhile (\<lambda>x. x = c) (rev p))) c @ dropWhile (\<lambda>x. x = c) (rev p))"
    by simp
  then show ?thesis by (simp add: rstrip_def)
qed



section \<open>Properties of the link rewriter\<close>


text \<open>
  Claim C6. For every anchor element whose href parses with a non-empty authority, the
  rewriter leaves the attributes of the element, the href among them, exactly as they
  were; only the children are walked.
\<close>

theorem external_link_unchanged:
  assumes "map_of a ''href'' = Some href" and "urlsplit chk href = Inr parts"
    and "netloc parts \<noteq> []"
  shows "handle_element chk (Element ''a'' a tx ta cs) =
           (case handle_children chk cs of
              Inl e \<Rightarrow> Inl e
            | Inr cs' \<Rightarrow> Inr (Element ''a'' a tx ta cs'))"
  using assms by (simp split: sum.splits)

lemma urlsplit_example_external:
  "urlsplit accept_all ''https://example.com/x.md'' =
     Inr \<lparr>scheme = ''https'', netloc = ''example.com'', path = ''/x.md'', query = [], fragment = []\<rparr>"
  by code_simp

theorem external_link_unchanged_witness:
  "handle_element accept_all (Element ''a'' [(''href'', ''https://example.com/x.md'')] None None []) =
     Inr (Element ''a'' [(''href'', ''https://example.com/x.md'')] None None [])"
  using external_link_unchanged [of "[(''href'', ''https://example.com/x.md'')]"
      "''https://example.com/x.md''" accept_all
      "\<lparr>scheme = ''https'', netloc = ''example.com'', path = ''/x.md'', query = [], fragment = []\<rparr>"
      None None "[]"]
    urlsplit_example_external
  by simp

lemmas url_eval_defs = rewrite_href_def urlsplit_def url_clean_def split_scheme_def has_scheme_def
  split_tail_def split_first_def rewrite_parts_def rewrite_path_def strip_md_path_def urlunsplit_def
  rstrip_def endswith_def checknetloc_def unsafe_url_bytes_def c0_control_or_space_def

lemma rewrite_href_fragment_only: "rewrite_href chk ''#sec'' = Inr ''/#sec''"
  by (simp add: url_eval_defs)

lemma rewrite_href_empty: "rewrite_href chk [] = Inr ''/''"
  by (simp add: url_eval_defs)

text \<open>
  Claim C10. For every anchor element whose href has no authority and an empty path, the
  path handed to \<open>urlunsplit\<close> is exactly \<open>/\<close>; the href \<open>#sec\<close> becomes \<open>/#sec\<close> and the
  empty href becomes \<open>/\<close>.
\<close>

theorem empty_path_becomes_root:
  assumes "map_of a ''href'' = Some href" and "urlsplit chk href = Inr parts"
    and "netloc parts = []" and "path parts = []"
  shows "handle_element chk (Element ''a'' a tx ta cs) =
           (case handle_children chk cs of
              Inl e \<Rightarrow> Inl e
            | Inr cs' \<Rightarrow>
                Inr (Element ''a''
                      (AList.update ''href''
                         (urlunsplit (scheme parts, [], ''/'', query parts, fragment parts)) a)
                      tx ta cs'))
         \<and> rewrite_href chk ''#sec'' = Inr ''/#sec''
         \<and> rewrite_href chk [] = Inr ''/''"
  using assms rewrite_href_fragment_only rewrite_href_empty
  by (simp add: rewrite_parts_def rewrite_path_def strip_md_path_def rstrip_def endswith_def
        split: sum.splits)

lemma urlsplit_example_fragment:
  "urlsplit accept_all ''#sec'' =
     Inr \<lparr>scheme = [], netloc = [], path = [], query = [], fragment = ''sec''\<rparr>"
  by code_simp

lemma urlunsplit_example_fragment: "urlunsplit ([], [], ''/'', [], ''sec'') = ''/#sec''"
  by code_simp

theorem empty_path_becomes_root_witness:
  "handle_element accept_all (Element ''a'' [(''href'', ''#sec'')] None None []) =
     Inr (Element ''a'' [(''href'', ''/#sec'')] None None [])"
  using empty_path_becomes_root [of "[(''href'', ''#sec'')]" "''#sec''" accept_all
      "\<lparr>scheme = [], netloc = [], path = [], query = [], fragment = ''sec''\<rparr>"
      None None "[]"]
    urlsplit_example_fragment
  by (simp add: urlunsplit_example_fragment)


section \<open>Properties of the path functions\<close>

lemma common_scan_total: "s1 \<le> s2 \<Longrightarrow> common_scan s1 s2 \<noteq> None"
proof (induction s1 s2 rule: common_scan.induct)
  case (1 s2) then show ?case by simp
next
  case (2 c s1) then show ?case by simp
next
  case (3 c s1 d s2) then show ?case by (cases "c = d") auto
qed

lemma common_scan_prefix:
  "common_scan s1 s2 = Some common \<Longrightarrow> (\<exists>r1. s1 = common @ r1) \<and> (\<exists>r2. s2 = common @ r2)"
proof (induction s1 s2 arbitrary: common rule: common_scan.induct)
  case (1 s2) then show ?case by simp
next
  case (2 c s1) then show ?case by simp
next
  case (3 c s1 d s2) then show ?case by (cases "c = d") auto
qed

lemma commonpath_two:
  "commonpath [p, q] =
     (if (take 1 p = ''/'') \<noteq> (take 1 q = ''/'') then Inl ValueError
      else case common_scan (min (path_components p) (path_components q))
                            (max (path_components p) (path_components q)) of
             None \<Rightarrow> Inl IndexError
           | Some common \<Rightarrow> Inr ((if take 1 p = ''/'' then ''/'' else []) @ sep_join ''/'' common))"
  by (auto simp: commonpath_def Let_def)

lemma commonpath_abs:
  assumes "take 1 p = ''/''" and "take 1 q = ''/''"
  shows "\<exists>cp. commonpath [p, q] = Inr cp"
proof -
  have "min (path_components p) (path_components q) \<le> max (path_components p) (path_components q)"
    by (rule order_trans [OF min.cobounded1 max.cobounded1])
  then obtain common where
    "common_scan (min (path_components p) (path_components q))
                 (max (path_components p) (path_components q)) = Some common"
    using common_scan_total by blast
  with assms show ?thesis by (simp add: commonpath_two)
qed

lemma normpath_abs: "take 1 p = ''/'' \<Longrightarrow> take 1 (normpath p) = ''/''"
  by (cases p) (auto simp: normpath_def startswith_def Let_def)

lemma path_join_abs: "take 1 a = ''/'' \<Longrightarrow> take 1 (path_join a b) = ''/''"
  by (cases a) (auto simp: path_join_def startswith_def)

lemma base_path_abs: "take 1 root = ''/'' \<Longrightarrow> take 1 (base_path root page) = ''/''"
  unfolding base_path_def by (rule normpath_abs, rule path_join_abs, rule normpath_abs)


lemma split_on_nonempty: "split_on c s \<noteq> []"
  by (induction s) (auto split: list.splits)

lemma split_on_no_sep: "seg \<in> set (split_on c s) \<Longrightarrow> c \<notin> set seg"
proof (induction s arbitrary: seg)
  case Nil then show ?case by simp
next
  case (Cons x xs)
  then show ?case by (auto split: if_splits list.splits)
qed

lemma split_on_no_occurrence: "c \<notin> set s \<Longrightarrow> split_on c s = [s]"
  by (induction s) auto

lemma split_on_append:
  "c \<notin> set s \<Longrightarrow> split_on c (s @ c # t) = s # split_on c t"
  by (induction s) auto

lemma split_on_sep_join:
  "cs \<noteq> [] \<Longrightarrow> \<forall>s \<in> set cs. c \<notin> set s \<Longrightarrow> split_on c (sep_join [c] cs) = cs"
proof (induction "[c]" cs rule: sep_join.induct)
  case 1 then show ?case by simp
next
  case (2 p) then show ?case by (simp add: split_on_no_occurrence)
next
  case (3 p q ps)
  then show ?case by (simp add: split_on_append)
qed

lemma path_components_props:
  "x \<in> set (path_components p) \<Longrightarrow> x \<noteq> [] \<and> x \<noteq> ''.'' \<and> CHR ''/'' \<notin> set x"
  by (auto simp: path_components_def dest: split_on_no_sep)

lemma path_components_sep_join:
  assumes "\<forall>x \<in> set cs. x \<noteq> [] \<and> x \<noteq> ''.'' \<and> CHR ''/'' \<notin> set x"
  shows "path_components (sep_join ''/'' cs) = cs"
    and "path_components (''/'' @ sep_join ''/'' cs) = cs"
proof -
  have f: "filter (\<lambda>c. c \<noteq> [] \<and> c \<noteq> ''.'') cs = cs"
    using assms by (simp add: filter_id_conv)
  show "path_components (sep_join ''/'' cs) = cs"
  proof (cases cs)
    case Nil then show ?thesis by (simp add: path_components_def)
  next
    case (Cons a as)
    then have "split_on (CHR ''/'') (sep_join ''/'' cs) = cs"
      using assms split_on_sep_join [of cs "CHR ''/''"] by simp
    with f show ?thesis by (simp add: path_components_def)
  qed
  then show "path_components (''/'' @ sep_join ''/'' cs) = cs"
    by (simp add: path_components_def)
qed

lemma commonpath_components:
  assumes "commonpath [p, r] = Inr cp"
  shows "\<exists>rest. path_components p = path_components cp @ rest"
proof -
  let ?a = "path_components p" and ?b = "path_components r"
  from assms obtain common where
    sc: "common_scan (min ?a ?b) (max ?a ?b) = Some common" and
    r: "cp = (if take 1 p = ''/'' then ''/'' else []) @ sep_join ''/'' common"
    by (auto simp: commonpath_two split: if_splits option.splits)
  from sc have pre: "(\<exists>r1. min ?a ?b = common @ r1) \<and> (\<exists>r2. max ?a ?b = common @ r2)"
    by (rule common_scan_prefix)
  have "min ?a ?b = ?a \<or> max ?a ?b = ?a" by (auto simp: min_def max_def)
  with pre obtain rest where rest: "?a = common @ rest" by metis
  then have "\<forall>x \<in> set common. x \<noteq> [] \<and> x \<noteq> ''.'' \<and> CHR ''/'' \<notin> set x"
    using path_components_props [of _ p] by auto
  then have "path_components cp = common"
    using r path_components_sep_join [of common] by (auto split: if_splits)
  with rest show ?thesis by simp
qed

lemma commonpath_descendant:
  "commonpath [p, r] = Inr r \<Longrightarrow> \<exists>rest. path_components p = path_components r @ rest"
  by (rule commonpath_components)


section \<open>Properties of the page loader\<close>

lemma render_file_some: "render_file e p = Inr (m, h) \<Longrightarrow> h \<noteq> None"
  by (auto simp: render_file_def split: option.splits sum.splits)

lemma try_paths_skip:
  "candidate_skipped e rc cand \<Longrightarrow> try_paths e rc (cand # rest) = try_paths e rc rest"
  by (auto simp: candidate_skipped_def Let_def split: sum.splits)

lemma try_paths_accept:
  "candidate_accepted e rc cand \<Longrightarrow> try_paths e rc (cand # rest) = render_file e (realpath e cand)"
  by (auto simp: candidate_accepted_def Let_def)

lemma try_paths_all_skipped:
  "\<forall>cand \<in> set cands. candidate_skipped e rc cand \<Longrightarrow> try_paths e rc cands = Inr not_found"
  by (induction cands) (simp_all add: try_paths_skip del: try_paths.simps(2))

lemma try_paths_skip_prefix:
  "\<forall>cand \<in> set pre. candidate_skipped e rc cand \<Longrightarrow>
   try_paths e rc (pre @ rest) = try_paths e rc rest"
  by (induction pre) (simp_all add: try_paths_skip del: try_paths.simps(2))

lemma try_paths_rendered:
  "try_paths e rc cands = Inr (m, Some html) \<Longrightarrow>
   \<exists>cand \<in> set cands. candidate_accepted e rc cand \<and> render_file e (realpath e cand) = Inr (m, Some html)"
proof (induction cands)
  case Nil
  then show ?case by (simp add: not_found_def)
next
  case (Cons c cs)
  show ?case
  proof (cases "candidate_accepted e rc c")
    case True
    with Cons.prems show ?thesis by (auto simp: try_paths_accept simp del: try_paths.simps)
  next
    case False
    with Cons.prems have "try_paths e rc cs = Inr (m, Some html)"
      by (auto simp: candidate_accepted_def Let_def split: if_splits sum.splits)
    with Cons.IH show ?thesis by auto
  qed
qed

lemma try_paths_absent:
  "try_paths e rc cands = Inr (m, None) \<Longrightarrow> (m, None) = not_found"
proof (induction cands)
  case Nil
  then show ?case by (simp add: not_found_def)
next
  case (Cons c cs)
  show ?case
  proof (cases "candidate_accepted e rc c")
    case True
    with Cons.prems show ?thesis
      using render_file_some by (auto simp: try_paths_accept simp del: try_paths.simps)
  next
    case False
    with Cons.prems have "try_paths e rc cs = Inr (m, None)"
      by (auto simp: candidate_accepted_def Let_def split: if_splits sum.splits)
    with Cons.IH show ?thesis by auto
  qed
qed

lemma load_doc_page_pass:
  "entry_checks_pass root page \<Longrightarrow>
   load_doc_page e root page = try_paths e (normpath root) (potential_paths root page)"
  by (auto simp: entry_checks_pass_def load_doc_page_def Let_def)

lemma load_doc_page_cases:
  "load_doc_page e root page = Inr not_found
   \<or> (\<exists>err. load_doc_page e root page = Inl err \<and>
         commonpath [base_path root page, normpath root] = Inl err)
   \<or> (entry_checks_pass root page \<and>
        load_doc_page e root page = try_paths e (normpath root) (potential_paths root page))"
  by (auto simp: entry_checks_pass_def load_doc_page_def Let_def split: sum.splits)



lemma split_on_snoc_sep: "split_on c (s @ [c]) = split_on c s @ [[]]"
proof (induction s)
  case Nil then show ?case by simp
next
  case (Cons x xs)
  then show ?case using split_on_nonempty [of c xs] by (auto split: list.splits)
qed

lemma split_on_replicate_sep: "split_on c (s @ replicate k c) = split_on c s @ replicate k []"
proof (induction k)
  case 0 then show ?case by simp
next
  case (Suc k)
  have "s @ replicate (Suc k) c = (s @ replicate k c) @ [c]"
    by (simp add: replicate_append_same)
  then have "split_on c (s @ replicate (Suc k) c) = split_on c (s @ replicate k c) @ [[]]"
    by (simp only: split_on_snoc_sep)
  with Suc show ?case by (simp add: replicate_append_same)
qed

lemma hidden_segment_rstrip:
  assumes "hidden_segment page"
  shows "\<exists>part \<in> set (split_on (CHR ''/'') (rstrip (CHR ''/'') page)). startswith part ''.''"
proof -
  from assms obtain part where
    part: "part \<in> set (split_on (CHR ''/'') page)" "startswith part ''.''"
    by (auto simp: hidden_segment_def)
  obtain k where "page = rstrip (CHR ''/'') page @ replicate k (CHR ''/'')"
    using rstrip_decomp by blast
  then have "split_on (CHR ''/'') page =
      split_on (CHR ''/'') (rstrip (CHR ''/'') page) @ replicate k []"
    using split_on_replicate_sep by metis
  moreover from part(2) have "part \<noteq> []" by (auto simp: startswith_def)
  ultimately have "part \<in> set (split_on (CHR ''/'') (rstrip (CHR ''/'') page))"
    using part(1) by auto
  with part(2) show ?thesis by blast
qed

lemma load_doc_page_rejected:
  assumes "take 1 root = ''/''"
    and "''..'' \<in> set (split_on (CHR ''/'') page) \<or> lexical_escape root page
         \<or> hidden_segment page
         \<or> (\<forall>cand \<in> set (potential_paths root page). candidate_skipped e (normpath root) cand)"
  shows "load_doc_page e root page = Inr not_found"
proof -
  obtain cp where cp: "commonpath [base_path root page, normpath root] = Inr cp"
    using commonpath_abs [OF base_path_abs [OF assms(1)] normpath_abs [OF assms(1)]] by blast
  show ?thesis
  proof (cases "''..'' \<in> set (split_on (CHR ''/'') page) \<or> cp \<noteq> normpath root")
    case True
    then show ?thesis using cp by (auto simp: load_doc_page_def Let_def)
  next
    case False
    then have nd: "''..'' \<notin> set (split_on (CHR ''/'') page)" and eq: "cp = normpath root" by auto
    from eq cp have nl: "\<not> lexical_escape root page" by (simp add: lexical_escape_def)
    show ?thesis
    proof (cases "hidden_segment page")
      case True
      then show ?thesis using hidden_segment_rstrip [OF True] nd cp eq
        by (simp add: load_doc_page_def Let_def)
    next
      case False
      with assms(2) nd nl
      have all: "\<forall>cand \<in> set (potential_paths root page). candidate_skipped e (normpath root) cand"
        by blast
      show ?thesis
      proof (cases "\<exists>part \<in> set (split_on (CHR ''/'') (rstrip (CHR ''/'') page)). startswith part ''.''")
        case True
        then show ?thesis using nd cp eq by (simp add: load_doc_page_def Let_def)
      next
        case False
        then show ?thesis using nd cp eq try_paths_all_skipped [OF all]
          by (simp add: load_doc_page_def Let_def)
      qed
    qed
  qed
qed


lemma load_doc_page_absent:
  assumes "load_doc_page e root page = Inr (m, None)"
  shows "(m, None) = not_found"
proof (cases "load_doc_page e root page = Inr not_found")
  case True
  with assms show ?thesis by simp
next
  case False
  moreover from assms have "\<not> (\<exists>err. load_doc_page e root page = Inl err)" by simp
  ultimately have "load_doc_page e root page = try_paths e (normpath root) (potential_paths root page)"
    using load_doc_page_cases [of e root page] by blast
  with assms show ?thesis using try_paths_absent by metis
qed

lemma load_doc_page_rendered:
  assumes "load_doc_page e root page = Inr (m, Some html)"
  shows "\<exists>cand \<in> set (potential_paths root page).
           candidate_accepted e (normpath root) cand
           \<and> render_file e (realpath e cand) = Inr (m, Some html)"
proof -
  from assms have "load_doc_page e root page \<noteq> Inr not_found"
    by (simp add: not_found_def)
  moreover from assms have "\<not> (\<exists>err. load_doc_page e root page = Inl err)" by simp
  ultimately have "load_doc_page e root page = try_paths e (normpath root) (potential_paths root page)"
    using load_doc_page_cases [of e root page] by blast
  with assms show ?thesis using try_paths_rendered by metis
qed

lemma example_env_metadata:
  assumes "load_doc_page (example_env f l u) root page = Inr (m, h)"
  shows "m = Map.empty"
proof (cases h)
  case None
  with assms show ?thesis using load_doc_page_absent by (fastforce simp: not_found_def)
next
  case (Some html)
  with assms obtain cand where
    "render_file (example_env f l u) (realpath (example_env f l u) cand) = Inr (m, Some html)"
    using load_doc_page_rendered by blast
  then show ?thesis
    by (auto simp: render_file_def example_env_def split: option.splits if_splits)
qed

lemma example_env_result:
  assumes "map_sum id snd (load_doc_page (example_env f l u) root page) = Inr h"
  shows "load_doc_page (example_env f l u) root page = Inr (Map.empty, h)"
proof (cases "load_doc_page (example_env f l u) root page")
  case (Inl err)
  with assms show ?thesis by simp
next
  case (Inr r)
  obtain m h' where r: "r = (m, h')" by (cases r)
  with Inr assms have "h' = h" by simp
  moreover from Inr r have "m = Map.empty" using example_env_metadata by blast
  ultimately show ?thesis using Inr r by simp
qed

text \<open>
  Claim C1. Whenever \<open>load_doc_page\<close> returns HTML, the HTML is rendered from the text read
  from the symlink-resolved path of one of the candidates; that candidate exists, the
  resolved path is not named \<open>README.md\<close>, and the resolved path lies under the normalised
  root: \<open>commonpath\<close> of the two is the root, so the components of the root are a prefix of
  the components of the resolved path.
\<close>

theorem resolved_file_in_root:
  assumes "load_doc_page e root page = Inr (m, Some html)"
  shows "\<exists>cand \<in> set (potential_paths root page).
           path_exists e cand
           \<and> basename (realpath e cand) \<noteq> ''README.md''
           \<and> commonpath [realpath e cand, normpath root] = Inr (normpath root)
           \<and> (\<exists>rest. path_components (realpath e cand) = path_components (normpath root) @ rest)
           \<and> (\<exists>text_md raw. read_file e (realpath e cand) = Some text_md
                 \<and> convert e text_md = Inr (raw, m) \<and> html = clean e raw)"
proof -
  from assms obtain cand where
    c: "cand \<in> set (potential_paths root page)" "candidate_accepted e (normpath root) cand"
       "render_file e (realpath e cand) = Inr (m, Some html)"
    using load_doc_page_rendered by blast
  from c(2) have a: "path_exists e cand" "basename (realpath e cand) \<noteq> ''README.md''"
    "commonpath [realpath e cand, normpath root] = Inr (normpath root)"
    by (auto simp: candidate_accepted_def)
  from a(3) have d: "\<exists>rest. path_components (realpath e cand) = path_components (normpath root) @ rest"
    by (rule commonpath_descendant)
  from c(3) have r: "\<exists>text_md raw. read_file e (realpath e cand) = Some text_md
                 \<and> convert e text_md = Inr (raw, m) \<and> html = clean e raw"
    by (auto simp: render_file_def split: option.splits sum.splits)
  from c(1) a d r show ?thesis by blast
qed

lemma example_guide_loads:
  "load_doc_page (example_env [''/srv/docs/guide.md''] [] []) ''/srv/docs'' ''guide''
     = Inr (Map.empty, Some ''Hello'')"
proof -
  have "map_sum id snd
          (load_doc_page (example_env [''/srv/docs/guide.md''] [] []) ''/srv/docs'' ''guide'')
          = Inr (Some ''Hello'')"
    by code_simp
  then show ?thesis by (rule example_env_result)
qed

theorem resolved_file_in_root_witness:
  "\<exists>cand \<in> set (potential_paths ''/srv/docs'' ''guide'').
      path_exists (example_env [''/srv/docs/guide.md''] [] []) cand
      \<and> basename (realpath (example_env [''/srv/docs/guide.md''] [] []) cand) \<noteq> ''README.md''
      \<and> commonpath [realpath (example_env [''/srv/docs/guide.md''] [] []) cand, normpath ''/srv/docs'']
          = Inr (normpath ''/srv/docs'')"
  using resolved_file_in_root [OF example_guide_loads] by blast


lemma path_join_leading_slash: "startswith b ''/'' \<Longrightarrow> path_join a b = b"
  by (simp add: path_join_def)

text \<open>
  Claim C2, as amended. With an absolute root, \<open>load_doc_page\<close> returns the not-found result
  (empty metadata, no HTML) for every logical path that contains a \<open>..\<close> segment, or whose
  join with the root normalises to a path lexically outside the root, or that contains a
  segment starting with a dot, or all of whose candidates are skipped (missing, resolved
  to \<open>README.md\<close>, or resolved outside the root). A leading slash is rejected through the
  second case only: the joined path is then the logical path itself.
\<close>

theorem rejected_paths_not_found:
  assumes "take 1 root = ''/''"
    and "''..'' \<in> set (split_on (CHR ''/'') page) \<or> lexical_escape root page
         \<or> hidden_segment page
         \<or> (\<forall>cand \<in> set (potential_paths root page). candidate_skipped e (normpath root) cand)"
  shows "load_doc_page e root page = Inr (Map.empty, None)
         \<and> (startswith (rstrip (CHR ''/'') page) ''/''
              \<longrightarrow> base_path root page = normpath (rstrip (CHR ''/'') page))"
  using load_doc_page_rejected [OF assms]
  by (simp add: not_found_def base_path_def path_join_leading_slash)

lemma example_outside_escape: "lexical_escape ''/srv/docs'' ''/etc/passwd''"
  by code_simp

theorem rejected_paths_not_found_witness:
  "load_doc_page (example_env [''/etc/passwd.md''] [] []) ''/srv/docs'' ''/etc/passwd''
     = Inr (Map.empty, None)"
  using rejected_paths_not_found [of "''/srv/docs''" "''/etc/passwd''"
      "example_env [''/etc/passwd.md''] [] []"] example_outside_escape
  by simp

lemma example_slash_loads:
  "load_doc_page (example_env [''/srv/docs/index.md''] [] []) ''/srv/docs'' ''/''
     = Inr (Map.empty, Some ''Hello'')"
proof -
  have "map_sum id snd
          (load_doc_page (example_env [''/srv/docs/index.md''] [] []) ''/srv/docs'' ''/'')
          = Inr (Some ''Hello'')"
    by code_simp
  then show ?thesis by (rule example_env_result)
qed

lemma example_escape_falls_through:
  "load_doc_page
     (example_env [''/srv/docs/guide.md'', ''/srv/docs/guide/index.md'']
                  [(''/srv/docs/guide.md'', ''/tmp/outside.md'')] [])
     ''/srv/docs'' ''guide''
   = Inr (Map.empty, Some ''Hello'')"
proof -
  have "map_sum id snd
          (load_doc_page
             (example_env [''/srv/docs/guide.md'', ''/srv/docs/guide/index.md'']
                          [(''/srv/docs/guide.md'', ''/tmp/outside.md'')] [])
             ''/srv/docs'' ''guide'')
          = Inr (Some ''Hello'')"
    by code_simp
  then show ?thesis by (rule example_env_result)
qed

lemma example_escape_facts:
  "path_exists (example_env [''/srv/docs/guide.md'', ''/srv/docs/guide/index.md'']
                  [(''/srv/docs/guide.md'', ''/tmp/outside.md'')] []) ''/srv/docs/guide.md''"
  "commonpath [realpath (example_env [''/srv/docs/guide.md'', ''/srv/docs/guide/index.md'']
                  [(''/srv/docs/guide.md'', ''/tmp/outside.md'')] []) ''/srv/docs/guide.md'',
               normpath ''/srv/docs''] = Inr ''/''"
  "normpath ''/srv/docs'' = ''/srv/docs''"
  "potential_paths ''/srv/docs'' ''guide'' = [''/srv/docs/guide.md'', ''/srv/docs/guide/index.md'']"
  by code_simp+

text \<open>
  Claim C2 as stated fails twice: the logical path \<open>/\<close> begins with a slash and is served
  the index of the root, and a first candidate that resolves outside the root is passed
  over for the second candidate, which is rendered.
\<close>

theorem leading_slash_and_escape_counterexample:
  "startswith ''/'' ''/''
   \<and> load_doc_page (example_env [''/srv/docs/index.md''] [] []) ''/srv/docs'' ''/''
       = Inr (Map.empty, Some ''Hello'')
   \<and> hd (filter (path_exists (example_env [''/srv/docs/guide.md'', ''/srv/docs/guide/index.md'']
                  [(''/srv/docs/guide.md'', ''/tmp/outside.md'')] []))
             (potential_paths ''/srv/docs'' ''guide'')) = ''/srv/docs/guide.md''
   \<and> commonpath [realpath (example_env [''/srv/docs/guide.md'', ''/srv/docs/guide/index.md'']
                  [(''/srv/docs/guide.md'', ''/tmp/outside.md'')] []) ''/srv/docs/guide.md'',
                 normpath ''/srv/docs''] \<noteq> Inr (normpath ''/srv/docs'')
   \<and> load_doc_page
       (example_env [''/srv/docs/guide.md'', ''/srv/docs/guide/index.md'']
                    [(''/srv/docs/guide.md'', ''/tmp/outside.md'')] [])
       ''/srv/docs'' ''guide''
      = Inr (Map.empty, Some ''Hello'')"
  using example_slash_loads example_escape_falls_through example_escape_facts
  by (simp add: startswith_def)


text \<open>
  Claim C4, as amended. Once the checks on the logical path pass, the candidates
  \<open>base_path + ".md"\<close> and \<open>base_path/index.md\<close> are tried in this order. A candidate that
  does not exist, whose real basename is \<open>README.md\<close>, or whose real path is not under the
  root is skipped and the next candidate is tried; the first candidate that passes the
  three checks is read and rendered; when both are skipped the result is not found.
\<close>

theorem candidates_fall_through:
  assumes "entry_checks_pass root page"
  shows "(candidate_accepted e (normpath root) (base_path root page @ ''.md'')
            \<longrightarrow> load_doc_page e root page
                  = render_file e (realpath e (base_path root page @ ''.md'')))
       \<and> (candidate_skipped e (normpath root) (base_path root page @ ''.md'')
            \<and> candidate_accepted e (normpath root) (path_join (base_path root page) ''index.md'')
            \<longrightarrow> load_doc_page e root page
                  = render_file e (realpath e (path_join (base_path root page) ''index.md'')))
       \<and> (candidate_skipped e (normpath root) (base_path root page @ ''.md'')
            \<and> candidate_skipped e (normpath root) (path_join (base_path root page) ''index.md'')
            \<longrightarrow> load_doc_page e root page = Inr (Map.empty, None))"
  using load_doc_page_pass [OF assms, of e]
  by (simp add: potential_paths_def try_paths_skip try_paths_accept not_found_def
        del: try_paths.simps(2))

lemma example_readme_facts:
  "entry_checks_pass ''/srv/docs'' ''guide''"
  "base_path ''/srv/docs'' ''guide'' = ''/srv/docs/guide''"
  "normpath ''/srv/docs'' = ''/srv/docs''"
  "path_join ''/srv/docs/guide'' ''index.md'' = ''/srv/docs/guide/index.md''"
  "candidate_skipped readme_link_env ''/srv/docs'' ''/srv/docs/guide.md''"
  "candidate_accepted readme_link_env ''/srv/docs'' ''/srv/docs/guide/index.md''"
  "path_exists readme_link_env ''/srv/docs/guide.md''"
  "basename (realpath readme_link_env ''/srv/docs/guide.md'') = ''README.md''"
  "potential_paths ''/srv/docs'' ''guide'' = [''/srv/docs/guide.md'', ''/srv/docs/guide/index.md'']"
  by code_simp+

lemma example_readme_render:
  "render_file readme_link_env ''/srv/docs/guide/index.md'' = Inr (Map.empty, Some ''Hello'')"
  by (simp add: render_file_def readme_link_env_def example_env_def)

theorem candidates_fall_through_witness:
  "load_doc_page readme_link_env ''/srv/docs'' ''guide'' = Inr (Map.empty, Some ''Hello'')"
  using candidates_fall_through [OF example_readme_facts(1), of readme_link_env]
    example_readme_facts example_readme_render
  by (simp add: readme_link_env_def example_env_def)

lemma example_readme_loads:
  "load_doc_page readme_link_env ''/srv/docs'' ''guide'' = Inr (Map.empty, Some ''Hello'')"
proof -
  have "map_sum id snd
          (load_doc_page
             (example_env [''/srv/docs/guide.md'', ''/srv/docs/guide/index.md'']
                          [(''/srv/docs/guide.md'', ''/srv/docs/README.md'')] [])
             ''/srv/docs'' ''guide'')
          = Inr (Some ''Hello'')"
    by code_simp
  then show ?thesis unfolding readme_link_env_def by (rule example_env_result)
qed

text \<open>
  Claim C4 as stated fails: the first candidate that exists is \<open>guide.md\<close>, its real
  basename is \<open>README.md\<close>, and the loader goes on to \<open>guide/index.md\<close> and renders it
  instead of returning not found.
\<close>

theorem readme_candidate_falls_through:
  "hd (filter (path_exists readme_link_env) (potential_paths ''/srv/docs'' ''guide''))
     = ''/srv/docs/guide.md''
   \<and> basename (realpath readme_link_env ''/srv/docs/guide.md'') = ''README.md''
   \<and> load_doc_page readme_link_env ''/srv/docs'' ''guide'' = Inr (Map.empty, Some ''Hello'')
   \<and> load_doc_page readme_link_env ''/srv/docs'' ''guide'' \<noteq> Inr (Map.empty, None)"
  using example_readme_loads example_readme_facts by simp


text \<open>
  Claim C8. When the candidates before it are skipped and a candidate passes the existence
  check and both security checks, a failing read of its resolved path ends the call with
  the uncaught \<open>OSError\<close>; the result is not the not-found value and the next candidate is
  not tried.
\<close>

theorem read_failure_propagates:
  assumes "entry_checks_pass root page"
    and "potential_paths root page = pre @ cand # rest"
    and "\<forall>c \<in> set pre. candidate_skipped e (normpath root) c"
    and "candidate_accepted e (normpath root) cand"
    and "read_file e (realpath e cand) = None"
  shows "load_doc_page e root page = Inl OSError
         \<and> load_doc_page e root page \<noteq> Inr (Map.empty, None)"
proof -
  have "load_doc_page e root page = try_paths e (normpath root) (pre @ cand # rest)"
    using load_doc_page_pass [OF assms(1)] assms(2) by simp
  also have "\<dots> = try_paths e (normpath root) (cand # rest)"
    using assms(3) by (rule try_paths_skip_prefix)
  also have "\<dots> = render_file e (realpath e cand)"
    using assms(4) by (rule try_paths_accept)
  also have "\<dots> = Inl OSError"
    using assms(5) by (simp add: render_file_def)
  finally show ?thesis by simp
qed

lemma example_unreadable_facts:
  "entry_checks_pass ''/srv/docs'' ''guide''"
  "potential_paths ''/srv/docs'' ''guide'' = [] @ ''/srv/docs/guide.md'' # [''/srv/docs/guide/index.md'']"
  "candidate_accepted (example_env [''/srv/docs/guide.md''] [] [''/srv/docs/guide.md''])
     (normpath ''/srv/docs'') ''/srv/docs/guide.md''"
  "read_file (example_env [''/srv/docs/guide.md''] [] [''/srv/docs/guide.md''])
     (realpath (example_env [''/srv/docs/guide.md''] [] [''/srv/docs/guide.md'']) ''/srv/docs/guide.md'')
     = None"
  by code_simp+

theorem read_failure_propagates_witness:
  "load_doc_page (example_env [''/srv/docs/guide.md''] [] [''/srv/docs/guide.md''])
     ''/srv/docs'' ''guide'' = Inl OSError"
  using read_failure_propagates [OF example_unreadable_facts(1) example_unreadable_facts(2) _
      example_unreadable_facts(3) example_unreadable_facts(4)]
  by simp

text \<open>
  Claim C9. With an absolute root, each way in which \<open>load_doc_page\<close> declines to render
  (a \<open>..\<close> segment, a joined path lexically outside the root, a segment starting with a
  dot, no candidate that exists, candidates resolved to \<open>README.md\<close> or outside the root)
  returns the same value, empty metadata with no HTML; and whenever the HTML is absent the
  metadata is empty, so the caller cannot tell a rejection from a missing page.
\<close>

theorem absence_is_uniform:
  assumes "take 1 root = ''/''"
  shows "(''..'' \<in> set (split_on (CHR ''/'') page) \<or> lexical_escape root page
           \<or> hidden_segment page
           \<or> (\<forall>cand \<in> set (potential_paths root page). candidate_skipped e (normpath root) cand)
          \<longrightarrow> load_doc_page e root page = Inr (Map.empty, None))
       \<and> (\<forall>m. load_doc_page e root page = Inr (m, None) \<longrightarrow> m = Map.empty)"
proof (intro conjI impI allI)
  assume "''..'' \<in> set (split_on (CHR ''/'') page) \<or> lexical_escape root page
           \<or> hidden_segment page
           \<or> (\<forall>cand \<in> set (potential_paths root page). candidate_skipped e (normpath root) cand)"
  with assms show "load_doc_page e root page = Inr (Map.empty, None)"
    using load_doc_page_rejected by (simp add: not_found_def)
next
  fix m assume "load_doc_page e root page = Inr (m, None)"
  then show "m = Map.empty" using load_doc_page_absent by (fastforce simp: not_found_def)
qed

lemma example_hidden: "hidden_segment ''.git/config''"
  by code_simp

theorem absence_is_uniform_witness:
  "load_doc_page (example_env [''/srv/docs/.git/config.md''] [] []) ''/srv/docs'' ''.git/config''
     = Inr (Map.empty, None)
   \<and> load_doc_page (example_env [] [] []) ''/srv/docs'' ''missing''
     = Inr (Map.empty, None)"
proof -
  have a: "take 1 ''/srv/docs'' = ''/''" by simp
  have "\<forall>cand \<in> set (potential_paths ''/srv/docs'' ''missing'').
          candidate_skipped (example_env [] [] []) (normpath ''/srv/docs'') cand"
    by (simp add: candidate_skipped_def example_env_def)
  then show ?thesis
    using absence_is_uniform [OF a, of "''.git/config''" "example_env [''/srv/docs/.git/config.md''] [] []"]
      absence_is_uniform [OF a, of "''missing''" "example_env [] [] []"] example_hidden
    by blast
qed


section \<open>Round trip of an internal href\<close>

























lemma endswith_cons:
  assumes "\<not> endswith core t" and "length t \<le> length core"
  shows "\<not> endswith (a # core) t"
  using assms by (auto simp: endswith_def Suc_diff_le)













lemma takeWhile_prefix_hd: "takeWhile P xs \<noteq> [] \<Longrightarrow> hd (takeWhile P xs) = hd xs"
  by (cases xs) (auto split: if_splits)



















section \<open>The rewritten href, parsed again\<close>









end
